theory Spec2Isabelle
  imports Complex_Main
begin

section \<open>Signature scanning\<close>

text \<open>
  \<^verbatim>\<open>re_arg = re.compile(r"(\??)([uifsonah])")\<close>

  A match is one kind letter, with the question mark directly before it when there is
  one. The two groups of a match are strings: the first is \<^verbatim>\<open>'?'\<close> or empty, the second
  the kind letter.
\<close>

definition is_kind :: "char \<Rightarrow> bool" where
  "is_kind c \<longleftrightarrow> c \<in> set ''uifsonah''"

text \<open>
  \<^verbatim>\<open>re_arg.finditer(signature)\<close>: the matches from left to right, without overlap. At
  each position the pattern first tries the question mark followed by a kind letter,
  then the kind letter alone; where neither fits the scan moves on by one character.
\<close>

fun re_arg_finditer :: "string \<Rightarrow> (string \<times> string) list" where
  "re_arg_finditer [] = []"
| "re_arg_finditer [c] = (if is_kind c then [('''', [c])] else [])"
| "re_arg_finditer (c # d # cs) =
     (if c = CHR ''?'' \<and> is_kind d then (''?'', [d]) # re_arg_finditer cs
      else if is_kind c then ('''', [c]) # re_arg_finditer (d # cs)
      else re_arg_finditer (d # cs))"

text \<open>
  The reading of the specification: every kind letter of the string gives one argument
  descriptor, in order, flagged nullable when the character before the letter is a
  question mark. The flag \<open>q\<close> says whether the previous character was one.
\<close>

fun descriptors_after :: "bool \<Rightarrow> string \<Rightarrow> (string \<times> string) list" where
  "descriptors_after q [] = []"
| "descriptors_after q (c # cs) =
     (if is_kind c then [(if q then ''?'' else '''', [c])] else [])
       @ descriptors_after (c = CHR ''?'') cs"

definition is_digit :: "char \<Rightarrow> bool" where
  "is_digit c \<longleftrightarrow> c \<in> set ''0123456789''"


section \<open>Messages\<close>

text \<open>
  A Python function object, of which the constructor reads only \<^verbatim>\<open>__name__\<close>; an
  interface class, of which it reads \<^verbatim>\<open>_ptr\<close>.
\<close>

record py_function =
  dunder_name :: string

record interface =
  iface_name :: string
  iface_ptr :: nat

text \<open>\<^verbatim>\<open>str.strip(chars)\<close> for a one-character set: drop it from both ends.\<close>

definition py_strip :: "char \<Rightarrow> string \<Rightarrow> string" where
  "py_strip c s = rev (dropWhile (\<lambda>x. x = c) (rev (dropWhile (\<lambda>x. x = c) s)))"

text \<open>The \<^verbatim>\<open>struct wl_message\<close> behind \<^verbatim>\<open>_ptr\<close>: two C strings and the table of types.\<close>

record wl_message =
  c_name :: string
  c_signature :: string
  c_types :: "nat list"

record message =
  func :: py_function
  name :: string
  signature :: string
  types :: "interface option list"
  ptr :: wl_message

text \<open>
  \<^verbatim>\<open>Message.__init__(self, func, signature, types)\<close>. A \<^verbatim>\<open>char[]\<close> made from a byte string
  has a terminating zero byte after it; a type that is \<^verbatim>\<open>None\<close> is stored as \<^verbatim>\<open>NULL\<close>.
\<close>

definition Message_init :: "py_function \<Rightarrow> string \<Rightarrow> interface option list \<Rightarrow> message" where
  "Message_init f sig tys =
     (let nm = py_strip CHR ''_'' (dunder_name f)
      in \<lparr> func = f, name = nm, signature = sig, types = tys,
           ptr = \<lparr> c_name = nm @ [CHR 0x00],
                   c_signature = sig @ [CHR 0x00],
                   c_types = map (\<lambda>t. case t of None \<Rightarrow> 0 | Some i \<Rightarrow> iface_ptr i) tys \<rparr> \<rparr>)"


section \<open>Python values and exceptions\<close>

text \<open>
  The exceptions that the two conversions can end with. \<open>Exception\<close> is the bare
  \<^verbatim>\<open>raise Exception\<close> of the null checks; the others are raised by Python and by cffi.
  \<open>MemoryFault\<close> stands for a C read of memory that holds no such data, which is not a
  Python exception at all.
\<close>

datatype py_error =
    Exception | StopIteration | TypeError | OverflowError | AttributeError
  | ValueError | RuntimeError | UnicodeDecodeError | IndexError | MemoryFault

text \<open>A protocol object: its \<^verbatim>\<open>_ptr\<close> attribute and the interface it belongs to.\<close>

record proxy =
  obj_ptr :: nat
  obj_interface :: interface

text \<open>
  The values a caller can pass. A \<^verbatim>\<open>str\<close> is represented by its UTF-8 encoding, which is
  what \<^verbatim>\<open>str.encode()\<close> returns; a \<^verbatim>\<open>float\<close> by the real number it denotes (no infinities,
  no NaN).
\<close>

datatype pyval =
    PyNone | PyInt int | PyFloat real | PyStr string | PyBytes string | PyProxy proxy

text \<open>Python's \<^verbatim>\<open>==\<close> on these values: an \<^verbatim>\<open>int\<close> equals the \<^verbatim>\<open>float\<close> of the same value.\<close>

fun py_eq :: "pyval \<Rightarrow> pyval \<Rightarrow> bool" where
  "py_eq (PyInt a) (PyFloat b) = (real_of_int a = b)"
| "py_eq (PyFloat a) (PyInt b) = (a = real_of_int b)"
| "py_eq a b = (a = b)"

text \<open>
  \<^verbatim>\<open>bytes.decode()\<close> accepts exactly the well-formed UTF-8 sequences: no overlong forms,
  no surrogates, nothing above U+10FFFF.
\<close>

definition utf8_cont :: "nat \<Rightarrow> bool" where
  "utf8_cont b \<longleftrightarrow> 0x80 \<le> b \<and> b \<le> 0xBF"

fun utf8_wf :: "nat list \<Rightarrow> bool" where
  "utf8_wf [] = True"
| "utf8_wf (a # rest) =
     (if a < 0x80 then utf8_wf rest
      else if 0xC2 \<le> a \<and> a \<le> 0xDF then
        (case rest of
           b # r \<Rightarrow> utf8_cont b \<and> utf8_wf r
         | _ \<Rightarrow> False)
      else if 0xE0 \<le> a \<and> a \<le> 0xEF then
        (case rest of
           b # c # r \<Rightarrow>
             (if a = 0xE0 then 0xA0 else 0x80) \<le> b \<and> b \<le> (if a = 0xED then 0x9F else 0xBF)
             \<and> utf8_cont c \<and> utf8_wf r
         | _ \<Rightarrow> False)
      else if 0xF0 \<le> a \<and> a \<le> 0xF4 then
        (case rest of
           b # c # d # r \<Rightarrow>
             (if a = 0xF0 then 0x90 else 0x80) \<le> b \<and> b \<le> (if a = 0xF4 then 0x8F else 0xBF)
             \<and> utf8_cont c \<and> utf8_cont d \<and> utf8_wf r
         | _ \<Rightarrow> False)
      else False)"

definition bytes_decode :: "string \<Rightarrow> py_error + pyval" where
  "bytes_decode bs =
     (if utf8_wf (map of_char bs) then Inr (PyStr bs) else Inl UnicodeDecodeError)"


section \<open>Memory behind cffi\<close>

text \<open>
  What \<^verbatim>\<open>ffi.new\<close> allocates: a \<^verbatim>\<open>char[]\<close>, a \<^verbatim>\<open>struct wl_array\<close>, a \<^verbatim>\<open>void[]\<close>, and the
  array of \<^verbatim>\<open>union wl_argument\<close> itself (of which the block records only the length, the
  slots being carried in the array value below).
\<close>

record wl_array =
  arr_size :: nat
  arr_alloc :: nat
  arr_data :: nat

datatype cblock =
    CharArray string | WlArray wl_array | VoidArray string | UnionArray nat

text \<open>
  The heap is the list of the blocks allocated so far. The block number \<open>k\<close> (from 0) has
  the address \<open>k + 1\<close>: an allocation returns an address that is not \<^verbatim>\<open>NULL\<close> and differs
  from every earlier one. \<^verbatim>\<open>NULL\<close> is the address 0.
\<close>

type_synonym ffi_heap = "cblock list"

definition ffi_new :: "ffi_heap \<Rightarrow> cblock \<Rightarrow> nat \<times> ffi_heap" where
  "ffi_new h b = (Suc (length h), h @ [b])"

definition deref :: "ffi_heap \<Rightarrow> nat \<Rightarrow> cblock option" where
  "deref h p = (if 0 < p \<and> p \<le> length h then Some (h ! (p - 1)) else None)"

definition store :: "ffi_heap \<Rightarrow> nat \<Rightarrow> cblock \<Rightarrow> ffi_heap" where
  "store h p b = h[p - 1 := b]"

text \<open>
  \<^verbatim>\<open>ffi.string(p)\<close> for a \<^verbatim>\<open>char *\<close>: \<^verbatim>\<open>RuntimeError\<close> on \<^verbatim>\<open>NULL\<close>, otherwise the bytes at \<open>p\<close>
  up to the first zero byte.
\<close>

definition ffi_string :: "ffi_heap \<Rightarrow> nat \<Rightarrow> py_error + string" where
  "ffi_string h p =
     (if p = 0 then Inl RuntimeError
      else case deref h p of
             Some (CharArray bs) \<Rightarrow>
               if CHR 0x00 \<in> set bs then Inr (takeWhile (\<lambda>c. c \<noteq> CHR 0x00) bs)
               else Inl MemoryFault
           | _ \<Rightarrow> Inl MemoryFault)"


section \<open>Raw argument slots\<close>

text \<open>
  A \<^verbatim>\<open>union wl_argument\<close> is one pointer-sized slot. The model keeps its content as the
  unsigned number it holds: the 32-bit members \<^verbatim>\<open>i\<close>, \<^verbatim>\<open>u\<close>, \<^verbatim>\<open>f\<close>, \<^verbatim>\<open>h\<close> are its low 32 bits,
  the pointer members \<^verbatim>\<open>s\<close>, \<^verbatim>\<open>o\<close>, \<^verbatim>\<open>a\<close> the whole number. A slot made by \<^verbatim>\<open>ffi.new\<close> is 0.
\<close>

definition get_u32 :: "nat \<Rightarrow> int" where
  "get_u32 slot = int (slot mod 2 ^ 32)"

definition get_i32 :: "nat \<Rightarrow> int" where
  "get_i32 slot = (let w = int (slot mod 2 ^ 32) in if w < 2 ^ 31 then w else w - 2 ^ 32)"

definition set_32 :: "nat \<Rightarrow> int \<Rightarrow> nat" where
  "set_32 slot v = (slot div 2 ^ 32) * 2 ^ 32 + nat (v mod 2 ^ 32)"

text \<open>
  The array of slots as a cdata value: the address it lives at and its slots. Indexing
  it gives a reference to the slot at the address \<open>addr + 8 * i\<close>.
\<close>

record cdata_array =
  addr :: nat
  slots :: "nat list"

text \<open>
  Assigning a Python value to a 32-bit integer member: cffi takes an \<^verbatim>\<open>int\<close> in range and
  raises \<^verbatim>\<open>OverflowError\<close> or \<^verbatim>\<open>TypeError\<close> otherwise.
\<close>

definition to_int32 :: "pyval \<Rightarrow> py_error + int" where
  "to_int32 v =
     (case v of
        PyInt n \<Rightarrow> if - (2 ^ 31) \<le> n \<and> n < 2 ^ 31 then Inr n else Inl OverflowError
      | _ \<Rightarrow> Inl TypeError)"

definition to_uint32 :: "pyval \<Rightarrow> py_error + int" where
  "to_uint32 v =
     (case v of
        PyInt n \<Rightarrow> if 0 \<le> n \<and> n < 2 ^ 32 then Inr n else Inl OverflowError
      | _ \<Rightarrow> Inl TypeError)"


section \<open>Fixed-point helpers\<close>

text \<open>
  Modelled from the spec: \<^verbatim>\<open>lib.wl_fixed_from_int\<close>, \<^verbatim>\<open>lib.wl_fixed_from_double\<close> and
  \<^verbatim>\<open>lib.wl_fixed_to_double\<close> come from the compiled \<^verbatim>\<open>pywayland.lib\<close>, which is not among the
  sources. The specification: a fixed is a signed 24.8 number sent as a 32-bit integer
  scaled by 256; an integer is scaled by 256 with no rounding, a float is scaled by 256
  and rounded to the nearest integer, and the decoded float is the raw value over 256.
  The raw value is a signed 32-bit integer: a scaled value outside its range is written
  here as wrapping around. A tie is rounded to the even neighbour, as the default
  floating-point rounding does.
\<close>

definition wrap_int32 :: "int \<Rightarrow> int" where
  "wrap_int32 x = (x + 2 ^ 31) mod 2 ^ 32 - 2 ^ 31"

definition round_half_even :: "real \<Rightarrow> int" where
  "round_half_even x =
     (let f = \<lfloor>x\<rfloor>; r = x - of_int f
      in if r < 1 / 2 then f
         else if 1 / 2 < r then f + 1
         else if even f then f else f + 1)"

definition wl_fixed_from_int :: "int \<Rightarrow> int" where
  "wl_fixed_from_int i = wrap_int32 (i * 256)"

definition wl_fixed_from_double :: "real \<Rightarrow> int" where
  "wl_fixed_from_double d = wrap_int32 (round_half_even (d * 256))"

definition wl_fixed_to_double :: "int \<Rightarrow> real" where
  "wl_fixed_to_double f = real_of_int f / 256"


section \<open>\<^verbatim>\<open>Message.arguments_to_c\<close>\<close>

record enc_state =
  args_ptr :: "nat list"
  arg_iter :: "pyval list"
  refs :: "nat list"
  heap :: ffi_heap

text \<open>
  The body of the loop after \<^verbatim>\<open>arg = next(arg_iter)\<close>: the new content of the slot, the
  list \<^verbatim>\<open>refs\<close> and the heap. \<open>void_ok\<close> says whether the compiled \<^verbatim>\<open>ffi\<close> allocates
  \<^verbatim>\<open>ffi.new('void []', n)\<close> as \<open>n\<close> bytes; where it does not, that call raises
  \<^verbatim>\<open>ValueError\<close>. The array branch of the source stops after \<^verbatim>\<open>refs.append(new_data)\<close>:
  it assigns neither \<^verbatim>\<open>new_arg.data\<close> nor \<^verbatim>\<open>args_ptr[i].a\<close>.
\<close>

definition encode_value ::
  "bool \<Rightarrow> string \<Rightarrow> string \<Rightarrow> pyval \<Rightarrow> nat \<Rightarrow> nat list \<Rightarrow> ffi_heap
     \<Rightarrow> py_error + (nat \<times> nat list \<times> ffi_heap)" where
  "encode_value void_ok null sig arg slot rs h =
     (if sig = ''i'' then
        (case to_int32 arg of Inl e \<Rightarrow> Inl e | Inr n \<Rightarrow> Inr (set_32 slot n, rs, h))
      else if sig = ''u'' then
        (case to_uint32 arg of Inl e \<Rightarrow> Inl e | Inr n \<Rightarrow> Inr (set_32 slot n, rs, h))
      else if sig = ''f'' then
        (case arg of
           PyInt n \<Rightarrow>
             (case to_int32 arg of
                Inl e \<Rightarrow> Inl e
              | Inr n' \<Rightarrow> Inr (set_32 slot (wl_fixed_from_int n'), rs, h))
         | PyFloat d \<Rightarrow> Inr (set_32 slot (wl_fixed_from_double d), rs, h)
         | _ \<Rightarrow> Inl TypeError)
      else if sig = ''h'' then
        (case to_int32 arg of Inl e \<Rightarrow> Inl e | Inr n \<Rightarrow> Inr (set_32 slot n, rs, h))
      else if sig = ''s'' then
        (case arg of
           PyNone \<Rightarrow> if null = [] then Inl Exception else Inr (0, rs, h)
         | PyStr t \<Rightarrow>
             (let (new_arg, h') = ffi_new h (CharArray (t @ [CHR 0x00]))
              in Inr (new_arg, rs @ [new_arg], h'))
         | _ \<Rightarrow> Inl AttributeError)
      else if sig = ''o'' then
        (case arg of
           PyNone \<Rightarrow> if null = [] then Inl Exception else Inr (0, rs, h)
         | PyProxy x \<Rightarrow> Inr (obj_ptr x, rs @ [obj_ptr x], h)
         | _ \<Rightarrow> Inl AttributeError)
      else if sig = ''a'' then
        (case arg of
           PyBytes bs \<Rightarrow>
             (let (new_arg, h1) = ffi_new h (WlArray \<lparr>arr_size = 0, arr_alloc = 0, arr_data = 0\<rparr>)
              in if \<not> void_ok then Inl ValueError
                 else
                   let (new_data, h2) = ffi_new h1 (VoidArray (replicate (length bs) (CHR 0x00)));
                       h3 = store h2 new_arg
                              (WlArray \<lparr>arr_size = length bs, arr_alloc = length bs, arr_data = 0\<rparr>);
                       h4 = store h3 new_data (VoidArray bs)
                   in Inr (slot, rs @ [new_arg, new_data], h4))
         | PyStr t \<Rightarrow> if \<not> void_ok then Inl ValueError else Inl TypeError
         | _ \<Rightarrow> Inl TypeError)
      else Inr (slot, rs, h))"

text \<open>
  \<^verbatim>\<open>for i, sig_match in enumerate(re_arg.finditer(self.signature))\<close>. A new id writes
  \<^verbatim>\<open>NULL\<close> and takes no value; every other match takes the next value, and
  \<^verbatim>\<open>next(arg_iter)\<close> raises \<^verbatim>\<open>StopIteration\<close> when there is none left. The index stays below
  the length of the array, which has one slot per match.
\<close>

fun encode_loop ::
  "bool \<Rightarrow> nat \<Rightarrow> (string \<times> string) list \<Rightarrow> enc_state \<Rightarrow> py_error + enc_state" where
  "encode_loop void_ok i [] st = Inr st"
| "encode_loop void_ok i ((null, sig) # ms) st =
     (if sig = ''n'' then
        encode_loop void_ok (Suc i) ms (st\<lparr>args_ptr := (args_ptr st)[i := 0]\<rparr>)
      else
        (case arg_iter st of
           [] \<Rightarrow> Inl StopIteration
         | arg # rest \<Rightarrow>
             (case encode_value void_ok null sig arg (args_ptr st ! i) (refs st) (heap st) of
                Inl e \<Rightarrow> Inl e
              | Inr (slot, rs, h) \<Rightarrow>
                  encode_loop void_ok (Suc i) ms
                    \<lparr>args_ptr = (args_ptr st)[i := slot], arg_iter = rest, refs = rs, heap = h\<rparr>)))"

text \<open>
  \<^verbatim>\<open>Message.arguments_to_c(self, *args)\<close>: the array of slots, the list \<^verbatim>\<open>refs\<close> that is
  kept in \<^verbatim>\<open>weakkeydict\<close> under the array (when it is not empty), and the heap after the
  allocations. Values left in \<^verbatim>\<open>arg_iter\<close> at the end are not looked at.
\<close>

definition arguments_to_c ::
  "bool \<Rightarrow> ffi_heap \<Rightarrow> message \<Rightarrow> pyval list
     \<Rightarrow> py_error + (cdata_array \<times> nat list \<times> ffi_heap)" where
  "arguments_to_c void_ok h self args =
     (let ms = re_arg_finditer (signature self);
          nargs = length ms;
          (a, h0) = ffi_new h (UnionArray nargs)
      in case encode_loop void_ok 0 ms
                \<lparr>args_ptr = replicate nargs 0, arg_iter = args, refs = [], heap = h0\<rparr> of
           Inl e \<Rightarrow> Inl e
         | Inr st \<Rightarrow> Inr (\<lparr>addr = a, slots = args_ptr st\<rparr>, refs st, heap st))"


section \<open>\<^verbatim>\<open>Message.c_to_arguments\<close>\<close>

text \<open>
  The body of the loop for the slot reference \<^verbatim>\<open>arg_ptr = args_ptr[i]\<close>, given as its
  address \<open>ea\<close> and its content. \<^verbatim>\<open>arg_ptr == ffi.NULL\<close> compares the reference itself,
  a cdata of union type, with \<^verbatim>\<open>NULL\<close>, where the source does not write \<^verbatim>\<open>arg_ptr.s\<close>: cffi
  compares two cdata that are not primitive by their addresses, so the test asks whether
  the slot lives at address 0, not whether the string pointer in it is null. For a slot
  of an array that exists the test is false, and \<^verbatim>\<open>ffi.string\<close> is reached with whatever
  pointer the slot holds. Objects, new ids and arrays append nothing.
\<close>

definition decode_value ::
  "ffi_heap \<Rightarrow> string \<Rightarrow> string \<Rightarrow> nat \<Rightarrow> nat \<Rightarrow> pyval list \<Rightarrow> py_error + pyval list" where
  "decode_value h null sig ea slot args =
     (if sig = ''i'' then Inr (args @ [PyInt (get_i32 slot)])
      else if sig = ''u'' then Inr (args @ [PyInt (get_u32 slot)])
      else if sig = ''f'' then Inr (args @ [PyFloat (wl_fixed_to_double (get_i32 slot))])
      else if sig = ''h'' then Inr (args @ [PyInt (get_i32 slot)])
      else if sig = ''s'' then
        (if ea = 0 then
           (if null = [] then Inl Exception else Inr (args @ [PyNone]))
         else
           (case ffi_string h slot of
              Inl e \<Rightarrow> Inl e
            | Inr bs \<Rightarrow>
                (case bytes_decode bs of
                   Inl e \<Rightarrow> Inl e
                 | Inr t \<Rightarrow> Inr (args @ [t]))))
      else if sig = ''o'' \<or> sig = ''n'' then Inr args
      else if sig = ''a'' then Inr args
      else Inr args)"

text \<open>
  \<^verbatim>\<open>for i, sig_match in enumerate(re_arg.finditer(self.signature))\<close>, with
  \<^verbatim>\<open>args_ptr[i]\<close> read first: on an array cdata an index past its end raises
  \<^verbatim>\<open>IndexError\<close>.
\<close>

fun decode_loop ::
  "ffi_heap \<Rightarrow> cdata_array \<Rightarrow> nat \<Rightarrow> (string \<times> string) list \<Rightarrow> pyval list
     \<Rightarrow> py_error + pyval list" where
  "decode_loop h ap i [] args = Inr args"
| "decode_loop h ap i ((null, sig) # ms) args =
     (if i < length (slots ap) then
        (case decode_value h null sig (addr ap + 8 * i) (slots ap ! i) args of
           Inl e \<Rightarrow> Inl e
         | Inr args' \<Rightarrow> decode_loop h ap (Suc i) ms args')
      else Inl IndexError)"

definition c_to_arguments ::
  "ffi_heap \<Rightarrow> message \<Rightarrow> cdata_array \<Rightarrow> py_error + pyval list" where
  "c_to_arguments h self ap = decode_loop h ap 0 (re_arg_finditer (signature self)) []"

text \<open>Encoding, then decoding what was encoded, in the heap that encoding left.\<close>

definition roundtrip ::
  "bool \<Rightarrow> ffi_heap \<Rightarrow> message \<Rightarrow> pyval list \<Rightarrow> py_error + pyval list" where
  "roundtrip void_ok h self args =
     (case arguments_to_c void_ok h self args of
        Inl e \<Rightarrow> Inl e
      | Inr (ap, rs, h') \<Rightarrow> c_to_arguments h' self ap)"


section \<open>Values consumed by encoding\<close>

text \<open>
  A match takes a value from the caller unless it is a new id. The number of values that
  encoding a signature takes is the number of such matches.
\<close>

definition takes_value :: "string \<times> string \<Rightarrow> bool" where
  "takes_value m \<longleftrightarrow> snd m \<noteq> ''n''"

definition consumed :: "(string \<times> string) list \<Rightarrow> nat" where
  "consumed ms = length (filter takes_value ms)"


text \<open>
  A match gives a value when decoding unless it is an object, a new id or an array, whose
  branches append nothing. The number of such matches before a position is the position
  of that match's value in the decoded list.
\<close>

definition gives_value :: "string \<times> string \<Rightarrow> bool" where
  "gives_value m \<longleftrightarrow> snd m \<in> set [''i'', ''u'', ''f'', ''h'', ''s'']"

definition decoded :: "(string \<times> string) list \<Rightarrow> nat" where
  "decoded ms = length (filter gives_value ms)"


section \<open>Interfaces of the test protocol\<close>

definition WlCore :: interface where
  "WlCore = \<lparr>iface_name = ''wl_core'', iface_ptr = 4096\<rparr>"

definition WlRequests :: interface where
  "WlRequests = \<lparr>iface_name = ''wl_requests'', iface_ptr = 8192\<rparr>"


text \<open>The same value with another interface, when it is an object.\<close>

definition with_interface :: "interface \<Rightarrow> pyval \<Rightarrow> pyval" where
  "with_interface i val =
     (case val of PyProxy x \<Rightarrow> PyProxy (x\<lparr>obj_interface := i\<rparr>) | _ \<Rightarrow> val)"


section \<open>Values that survive encoding and decoding\<close>

text \<open>
  The values for which decoding gives back what was encoded, by kind of slot: an integer
  that fits the 32-bit member; for a fixed, an integer of the 24.8 range or a float of that
  range that is a multiple of 1/256; for a string, a text (not \<^verbatim>\<open>None\<close>) without a zero
  character, in well-formed UTF-8 as every encoded \<^verbatim>\<open>str\<close> is. No value of an object, a new
  id or an array is among them.
\<close>

definition plain_value :: "string \<times> string \<Rightarrow> pyval \<Rightarrow> bool" where
  "plain_value m val =
     (let sig = snd m
      in if sig = ''i'' \<or> sig = ''h'' then
           (case val of PyInt n \<Rightarrow> - (2 ^ 31) \<le> n \<and> n < 2 ^ 31 | _ \<Rightarrow> False)
         else if sig = ''u'' then
           (case val of PyInt n \<Rightarrow> 0 \<le> n \<and> n < 2 ^ 32 | _ \<Rightarrow> False)
         else if sig = ''f'' then
           (case val of
              PyInt n \<Rightarrow> - (2 ^ 23) \<le> n \<and> n < 2 ^ 23
            | PyFloat d \<Rightarrow>
                - (2 ^ 23) \<le> d \<and> d < 2 ^ 23 \<and> d * 256 = real_of_int \<lfloor>d * 256\<rfloor>
            | _ \<Rightarrow> False)
         else if sig = ''s'' then
           (case val of
              PyStr t \<Rightarrow> CHR 0x00 \<notin> set t \<and> utf8_wf (map of_char t)
            | _ \<Rightarrow> False)
         else False)"


section \<open>Properties of the scanner\<close>

lemma kind_not_question: "is_kind c \<Longrightarrow> c \<noteq> CHR ''?''"
  by (auto simp: is_kind_def)

lemma digit_not_kind: "is_digit c \<Longrightarrow> \<not> is_kind c \<and> c \<noteq> CHR ''?''"
  by (auto simp: is_kind_def is_digit_def)

lemma finditer_descriptors: "re_arg_finditer s = descriptors_after False s"
proof (induction s rule: re_arg_finditer.induct)
  case 1
  show ?case by simp
next
  case (2 c)
  show ?case by simp
next
  case (3 c d cs)
  show ?case
  proof (cases "c = CHR ''?'' \<and> is_kind d")
    case True
    with 3 show ?thesis by (auto simp: is_kind_def)
  next
    case no_pair: False
    show ?thesis
    proof (cases "is_kind c")
      case True
      with no_pair 3 show ?thesis by (auto dest: kind_not_question)
    next
      case False
      with no_pair 3 show ?thesis by auto
    qed
  qed
qed

lemma descriptors_kinds: "map snd (descriptors_after q s) = map (\<lambda>c. [c]) (filter is_kind s)"
  by (induction s arbitrary: q) auto

lemma finditer_skips:
  "\<not> is_kind c \<Longrightarrow> c \<noteq> CHR ''?'' \<Longrightarrow> re_arg_finditer (c # s) = re_arg_finditer s"
  by (cases s) auto

text \<open>
  C9. Scanning a signature gives exactly one descriptor per kind letter, in the order of
  the string: the kinds of the matches are the kind letters of the string, and each match
  carries the question mark exactly when the character before its letter is one. A digit
  in front of a signature is skipped and is never a descriptor; the signature \<open>2\<close> has no
  arguments.
\<close>

theorem signature_scan:
  "re_arg_finditer s = descriptors_after False s
   \<and> map snd (re_arg_finditer s) = map (\<lambda>c. [c]) (filter is_kind s)
   \<and> length (re_arg_finditer s) = length (filter is_kind s)
   \<and> (is_digit d \<longrightarrow> re_arg_finditer (d # s) = re_arg_finditer s)
   \<and> (\<forall>m \<in> set (re_arg_finditer s). \<forall>k \<in> set (snd m). \<not> is_digit k)
   \<and> re_arg_finditer ''2'' = []"
proof -
  have kinds: "map snd (re_arg_finditer s) = map (\<lambda>c. [c]) (filter is_kind s)"
    by (simp add: finditer_descriptors descriptors_kinds)
  have len: "length (re_arg_finditer s) = length (filter is_kind s)"
    using arg_cong [OF kinds, of length] by simp
  have skip: "is_digit d \<longrightarrow> re_arg_finditer (d # s) = re_arg_finditer s"
    using digit_not_kind finditer_skips by blast
  have nodigit: "\<forall>m \<in> set (re_arg_finditer s). \<forall>k \<in> set (snd m). \<not> is_digit k"
  proof
    fix m assume "m \<in> set (re_arg_finditer s)"
    then have "snd m \<in> set (map snd (re_arg_finditer s))" by simp
    then have "snd m \<in> set (map (\<lambda>c. [c]) (filter is_kind s))" by (simp only: kinds)
    then obtain c where "snd m = [c]" "is_kind c" by auto
    then show "\<forall>k \<in> set (snd m). \<not> is_digit k" using digit_not_kind by auto
  qed
  have two: "re_arg_finditer ''2'' = []" by (simp add: is_kind_def)
  from finditer_descriptors kinds len skip nodigit two show ?thesis by blast
qed

theorem signature_scan_witness:
  "is_digit CHR ''2''
   \<and> re_arg_finditer ''2n?oi'' = [('''', ''n''), (''?'', ''o''), ('''', ''i'')]
   \<and> re_arg_finditer ''2n?oi'' = re_arg_finditer ''n?oi''
   \<and> filter is_kind ''2n?oi'' = ''noi''"
  using signature_scan [of "''n?oi''" "CHR ''2''"]
  by (simp add: is_digit_def is_kind_def)


section \<open>Properties of the constructor\<close>

lemma takeWhile_eq_replicate:
  "takeWhile (\<lambda>x. x = c) s = replicate (length (takeWhile (\<lambda>x. x = c) s)) c"
  by (induction s) auto

lemma dropWhile_replicate_split:
  "replicate (length (takeWhile (\<lambda>x. x = c) s)) c @ dropWhile (\<lambda>x. x = c) s = s"
proof -
  have "takeWhile (\<lambda>x. x = c) s @ dropWhile (\<lambda>x. x = c) s = s"
    by (rule takeWhile_dropWhile_id)
  then show ?thesis
    by (simp only: takeWhile_eq_replicate [symmetric])
qed

lemma py_strip_tail:
  "py_strip c s @ replicate (length (takeWhile (\<lambda>x. x = c) (rev (dropWhile (\<lambda>x. x = c) s)))) c
     = dropWhile (\<lambda>x. x = c) s"
proof -
  define t where "t = rev (dropWhile (\<lambda>x. x = c) s)"
  define b where "b = length (takeWhile (\<lambda>x. x = c) t)"
  have "replicate b c @ dropWhile (\<lambda>x. x = c) t = t"
    unfolding b_def by (rule dropWhile_replicate_split)
  then have "rev (replicate b c @ dropWhile (\<lambda>x. x = c) t) = rev t"
    by (rule arg_cong)
  then have "rev (dropWhile (\<lambda>x. x = c) t) @ replicate b c = rev t"
    by simp
  then show ?thesis
    by (simp add: py_strip_def t_def b_def)
qed

lemma py_strip_split:
  "\<exists>a b. s = replicate a c @ py_strip c s @ replicate b c"
proof -
  define a where "a = length (takeWhile (\<lambda>x. x = c) s)"
  define b where
    "b = length (takeWhile (\<lambda>x. x = c) (rev (dropWhile (\<lambda>x. x = c) s)))"
  have "replicate a c @ (py_strip c s @ replicate b c) = replicate a c @ dropWhile (\<lambda>x. x = c) s"
    unfolding b_def by (simp only: py_strip_tail)
  also have "\<dots> = s"
    unfolding a_def by (rule dropWhile_replicate_split)
  finally have "s = replicate a c @ py_strip c s @ replicate b c"
    by (rule sym)
  then show ?thesis by blast
qed

lemma py_strip_ends:
  assumes "py_strip c s \<noteq> []"
  shows "hd (py_strip c s) \<noteq> c \<and> last (py_strip c s) \<noteq> c"
proof -
  define t where "t = dropWhile (\<lambda>x. x = c) s"
  define u where "u = dropWhile (\<lambda>x. x = c) (rev t)"
  have strip: "py_strip c s = rev u"
    by (simp add: py_strip_def u_def t_def)
  from assms strip have u: "u \<noteq> []" by simp
  have "hd u \<noteq> c"
    using u hd_dropWhile [of "\<lambda>x. x = c" "rev t"] by (simp add: u_def)
  then have l: "last (py_strip c s) \<noteq> c"
    using u by (simp add: strip last_rev)
  from u have t: "t \<noteq> []" by (auto simp: u_def)
  have ht: "hd t \<noteq> c"
    using t hd_dropWhile [of "\<lambda>x. x = c" s] by (simp add: t_def)
  obtain b where "py_strip c s @ replicate b c = t"
    using py_strip_tail [of c s] by (simp add: t_def)
  then have "hd t = hd (py_strip c s)"
    using assms by (metis hd_append2)
  with ht l show ?thesis by simp
qed

text \<open>
  C10. The public name of a message is the \<^verbatim>\<open>__name__\<close> of its function without the
  underscores at its two ends: the function's name is the public name between two runs
  of underscores, and the public name neither starts nor ends with one. The signature
  string and the list of types are stored as given.
\<close>

theorem message_name_stripped:
  "(\<exists>a b. dunder_name f
            = replicate a CHR ''_'' @ name (Message_init f sig tys) @ replicate b CHR ''_'')
   \<and> (name (Message_init f sig tys) \<noteq> [] \<longrightarrow>
        hd (name (Message_init f sig tys)) \<noteq> CHR ''_''
        \<and> last (name (Message_init f sig tys)) \<noteq> CHR ''_'')
   \<and> signature (Message_init f sig tys) = sig
   \<and> types (Message_init f sig tys) = tys"
proof -
  have n: "name (Message_init f sig tys) = py_strip CHR ''_'' (dunder_name f)"
    by (simp add: Message_init_def Let_def)
  have s: "signature (Message_init f sig tys) = sig"
    by (simp add: Message_init_def Let_def)
  have t: "types (Message_init f sig tys) = tys"
    by (simp add: Message_init_def Let_def)
  have split: "\<exists>a b. dunder_name f
      = replicate a CHR ''_'' @ py_strip CHR ''_'' (dunder_name f) @ replicate b CHR ''_''"
    by (rule py_strip_split)
  have ends: "py_strip CHR ''_'' (dunder_name f) \<noteq> [] \<longrightarrow>
      hd (py_strip CHR ''_'' (dunder_name f)) \<noteq> CHR ''_''
      \<and> last (py_strip CHR ''_'' (dunder_name f)) \<noteq> CHR ''_''"
    using py_strip_ends [of "CHR ''_''" "dunder_name f"] by (rule impI)
  show ?thesis
    unfolding n s t using split ends by (intro conjI) simp_all
qed

theorem message_name_stripped_witness:
  "name (Message_init \<lparr>dunder_name = ''_func_''\<rparr> ''n?o'' [None, None]) = ''func''
   \<and> name (Message_init \<lparr>dunder_name = ''_func_''\<rparr> ''n?o'' [None, None]) \<noteq> []
   \<and> hd (name (Message_init \<lparr>dunder_name = ''_func_''\<rparr> ''n?o'' [None, None])) \<noteq> CHR ''_''
   \<and> signature (Message_init \<lparr>dunder_name = ''_func_''\<rparr> ''n?o'' [None, None]) = ''n?o''"
  using message_name_stripped [of "\<lparr>dunder_name = ''_func_''\<rparr>" "''n?o''" "[None, None]"]
  by (simp add: Message_init_def py_strip_def)


section \<open>Slots and fixed-point arithmetic\<close>

lemma set_32_mod: "set_32 s v mod 2 ^ 32 = nat (v mod 2 ^ 32)"
proof -
  have "nat (v mod 4294967296) < 4294967296"
    using pos_mod_bound [of 4294967296 v] pos_mod_sign [of 4294967296 v] by linarith
  then show ?thesis by (simp add: set_32_def)
qed

lemma get_u32_set_32: "0 \<le> v \<Longrightarrow> v < 2 ^ 32 \<Longrightarrow> get_u32 (set_32 s v) = v"
  unfolding get_u32_def set_32_mod by simp

lemma get_i32_set_32:
  assumes "- (2 ^ 31) \<le> v" "v < 2 ^ 31"
  shows "get_i32 (set_32 s v) = v"
proof (cases "0 \<le> v")
  case True
  with assms have "v mod 4294967296 = v" by simp
  with assms True show ?thesis
    unfolding get_i32_def set_32_mod by (simp add: Let_def)
next
  case False
  have "v mod 4294967296 = v + 4294967296"
    using assms False by (intro int_mod_pos_eq [of _ _ "-1"]) simp_all
  with assms False show ?thesis
    unfolding get_i32_def set_32_mod by (simp add: Let_def)
qed

lemma wrap_int32_id: "- (2 ^ 31) \<le> x \<Longrightarrow> x < 2 ^ 31 \<Longrightarrow> wrap_int32 x = x"
  by (simp add: wrap_int32_def)

lemma round_half_even_near: "\<bar>real_of_int (round_half_even y) - y\<bar> \<le> 1 / 2"
proof -
  have "real_of_int \<lfloor>y\<rfloor> \<le> y" "y < real_of_int \<lfloor>y\<rfloor> + 1" by linarith+
  then show ?thesis
    by (auto simp: round_half_even_def Let_def)
qed

lemma round_half_even_int: "round_half_even (real_of_int k) = k"
  by (simp add: round_half_even_def Let_def)

lemma round_half_even_bounds:
  assumes "real_of_int lo \<le> y" "y \<le> real_of_int hi"
  shows "lo \<le> round_half_even y \<and> round_half_even y \<le> hi"
proof -
  have fl: "lo \<le> \<lfloor>y\<rfloor>" using assms(1) by (simp add: le_floor_iff)
  have fh: "\<lfloor>y\<rfloor> \<le> hi" using assms(2) by (simp add: floor_le_iff) 
  have up: "y - real_of_int \<lfloor>y\<rfloor> \<noteq> 0 \<Longrightarrow> \<lfloor>y\<rfloor> + 1 \<le> hi"
  proof -
    assume "y - real_of_int \<lfloor>y\<rfloor> \<noteq> 0"
    then have "real_of_int \<lfloor>y\<rfloor> < y" by linarith
    with assms(2) have "real_of_int \<lfloor>y\<rfloor> < real_of_int hi" by linarith
    then show ?thesis by simp
  qed
  show ?thesis
    using fl fh up by (auto simp: round_half_even_def Let_def)
qed


section \<open>The loops and the number of values and slots\<close>

lemma consumed_Nil: "consumed [] = 0"
  by (simp add: consumed_def)

lemma consumed_Cons:
  "consumed ((null, sig) # ms) = (if sig = ''n'' then consumed ms else Suc (consumed ms))"
  by (simp add: consumed_def takes_value_def)





lemma signature_Message_init: "signature (Message_init f sig tys) = sig"
  by (simp add: Message_init_def Let_def)

lemmas eval_defs = signature_Message_init arguments_to_c_def c_to_arguments_def roundtrip_def
  is_kind_def ffi_new_def encode_value_def decode_value_def to_int32_def to_uint32_def
  set_32_def get_i32_def get_u32_def ffi_string_def deref_def store_def bytes_decode_def












section \<open>Positions that decoding leaves out\<close>

text \<open>
  C3, on the code. Decoding a two-argument signature (a new id and an object) over a
  two-slot array returns an empty list: the branches for objects, new ids and arrays are
  \<^verbatim>\<open>pass\<close> under a \<^verbatim>\<open>TODO\<close>, so those positions give no value and no error.
\<close>

theorem decode_skips_objects:
  "c_to_arguments [UnionArray 2]
     (Message_init \<lparr>dunder_name = ''make_import''\<rparr> ''n?o'' [Some WlRequests, Some WlCore])
     \<lparr>addr = 1, slots = [3, 4242]\<rparr> = Inr []
   \<and> length (re_arg_finditer ''n?o'') = 2"
  by (simp add: eval_defs)

text \<open>
  The encoding half of the null checks: \<^verbatim>\<open>None\<close> for a string or an object raises the bare
  \<^verbatim>\<open>Exception\<close> when the match has no question mark, and writes \<^verbatim>\<open>NULL\<close> when it has one.
\<close>

lemma encode_value_None:
  "sig = ''s'' \<or> sig = ''o'' \<Longrightarrow>
   encode_value v null sig PyNone slot rs h = (if null = [] then Inl Exception else Inr (0, rs, h))"
  by (auto simp: encode_value_def)

text \<open>
  C5, on the code. Encoding \<^verbatim>\<open>None\<close> into a nullable object or string slot succeeds and writes
  a null slot, but decoding that slot gives no absent value: for the object nothing is
  appended, and for the string \<^verbatim>\<open>ffi.string\<close> is called on the null pointer and raises
  \<^verbatim>\<open>RuntimeError\<close>, the test before it comparing the slot reference and not its member \<^verbatim>\<open>s\<close>.
\<close>

theorem null_object_not_decoded:
  "arguments_to_c True []
     (Message_init \<lparr>dunder_name = ''make_import''\<rparr> ''?o'' [Some WlCore]) [PyNone]
     = Inr (\<lparr>addr = 1, slots = [0]\<rparr>, [], [UnionArray 1])
   \<and> c_to_arguments [UnionArray 1]
     (Message_init \<lparr>dunder_name = ''make_import''\<rparr> ''?o'' [Some WlCore])
     \<lparr>addr = 1, slots = [0]\<rparr> = Inr []
   \<and> arguments_to_c True []
     (Message_init \<lparr>dunder_name = ''allow_null_event''\<rparr> ''?s'' [None]) [PyNone]
     = Inr (\<lparr>addr = 1, slots = [0]\<rparr>, [], [UnionArray 1])
   \<and> c_to_arguments [UnionArray 1]
     (Message_init \<lparr>dunder_name = ''allow_null_event''\<rparr> ''?s'' [None])
     \<lparr>addr = 1, slots = [0]\<rparr> = Inl RuntimeError"
  by (simp add: eval_defs)

section \<open>Arrays\<close>

text \<open>
  C7, on the code. Encoding a two-byte array allocates the descriptor and the buffer and
  keeps both in \<^verbatim>\<open>refs\<close>, with the size and the bytes in place, but the descriptor's data
  pointer stays null and the slot of the argument stays null. Where \<^verbatim>\<open>ffi\<close> does not
  allocate a \<^verbatim>\<open>void[]\<close>, the encoding raises \<^verbatim>\<open>ValueError\<close> instead.
\<close>

theorem array_slot_not_written:
  "arguments_to_c True [] (Message_init \<lparr>dunder_name = ''f''\<rparr> ''a'' [None]) [PyBytes ''xy'']
     = Inr (\<lparr>addr = 1, slots = [0]\<rparr>, [2, 3],
            [UnionArray 1, WlArray \<lparr>arr_size = 2, arr_alloc = 2, arr_data = 0\<rparr>, VoidArray ''xy''])
   \<and> arguments_to_c False [] (Message_init \<lparr>dunder_name = ''f''\<rparr> ''a'' [None]) [PyBytes ''xy'']
     = Inl ValueError"
  by (simp add: eval_defs)


section \<open>Objects\<close>

lemma encode_loop_frame:
  "encode_loop v i ms st = Inr st' \<Longrightarrow>
   length (args_ptr st') = length (args_ptr st) \<and> (\<forall>j < i. args_ptr st' ! j = args_ptr st ! j)"
proof (induction ms arbitrary: i st)
  case Nil
  then show ?case by simp
next
  case (Cons m ms)
  obtain null sig where m: "m = (null, sig)" by (cases m)
  show ?case
  proof (cases "sig = ''n''")
    case True
    with Cons.prems m
    have "encode_loop v (Suc i) ms (st\<lparr>args_ptr := (args_ptr st)[i := 0]\<rparr>) = Inr st'" by simp
    from Cons.IH [OF this] show ?thesis by simp
  next
    case False
    with Cons.prems m obtain arg rest slot rs h where
      "arg_iter st = arg # rest"
      and "encode_loop v (Suc i) ms
             \<lparr>args_ptr = (args_ptr st)[i := slot], arg_iter = rest, refs = rs, heap = h\<rparr> = Inr st'"
      by (auto split: list.splits sum.splits)
    from Cons.IH [OF this(2)] show ?thesis by simp
  qed
qed

lemma encode_value_object:
  assumes "encode_value v null ''o'' arg slot rs h = Inr (slot', rs', h')"
  shows "arg = PyNone \<and> slot' = 0 \<or> (\<exists>x. arg = PyProxy x \<and> slot' = obj_ptr x)"
  using assms by (cases arg) (auto simp: encode_value_def split: if_splits)

lemma encode_loop_object:
  "encode_loop v i ms st = Inr st' \<Longrightarrow> i + length ms \<le> length (args_ptr st) \<Longrightarrow>
   k < length ms \<Longrightarrow> snd (ms ! k) = ''o'' \<Longrightarrow>
   consumed (take k ms) < length (arg_iter st)
   \<and> (arg_iter st ! consumed (take k ms) = PyNone \<and> args_ptr st' ! (i + k) = 0
      \<or> (\<exists>x. arg_iter st ! consumed (take k ms) = PyProxy x
              \<and> args_ptr st' ! (i + k) = obj_ptr x))"
proof (induction ms arbitrary: i st k)
  case Nil
  then show ?case by simp
next
  case (Cons m ms)
  obtain null sig where m: "m = (null, sig)" by (cases m)
  show ?case
  proof (cases "sig = ''n''")
    case True
    let ?st = "st\<lparr>args_ptr := (args_ptr st)[i := 0]\<rparr>"
    from True Cons.prems(1) m have run: "encode_loop v (Suc i) ms ?st = Inr st'" by simp
    from True Cons.prems(4) m obtain k' where k: "k = Suc k'" by (cases k) auto
    from Cons.prems k have "Suc i + length ms \<le> length (args_ptr ?st)" "k' < length ms"
      "snd (ms ! k') = ''o''" by simp_all
    from Cons.IH [OF run this] show ?thesis
      using True m k by (simp add: consumed_Cons)
  next
    case False
    with Cons.prems(1) m obtain arg rest slot rs h where
      it: "arg_iter st = arg # rest"
      and ev: "encode_value v null sig arg (args_ptr st ! i) (refs st) (heap st) = Inr (slot, rs, h)"
      and run: "encode_loop v (Suc i) ms
             \<lparr>args_ptr = (args_ptr st)[i := slot], arg_iter = rest, refs = rs, heap = h\<rparr> = Inr st'"
      by (auto split: list.splits sum.splits)
    let ?st = "\<lparr>args_ptr = (args_ptr st)[i := slot], arg_iter = rest, refs = rs, heap = h\<rparr>"
    show ?thesis
    proof (cases k)
      case 0
      with Cons.prems(4) m have o: "sig = ''o''" by simp
      from Cons.prems(2) have i: "i < length (args_ptr st)" by simp
      from encode_loop_frame [OF run] i have "args_ptr st' ! i = slot" by simp
      with encode_value_object [OF ev [unfolded o]] it 0 show ?thesis
        by (simp add: consumed_Nil)
    next
      case (Suc k')
      from Cons.prems Suc have "Suc i + length ms \<le> length (args_ptr ?st)" "k' < length ms"
        "snd (ms ! k') = ''o''" by simp_all
      from Cons.IH [OF run this] show ?thesis
        using False m Suc it by (simp add: consumed_Cons)
    qed
  qed
qed

lemma encode_value_with_interface:
  "encode_value v null sig (with_interface i arg) slot rs h = encode_value v null sig arg slot rs h"
  by (cases arg) (simp_all add: with_interface_def encode_value_def to_int32_def to_uint32_def)

lemma encode_loop_with_interface:
  "encode_loop v n ms \<lparr>args_ptr = S, arg_iter = map (with_interface i) xs, refs = R, heap = H\<rparr>
     = map_sum id (arg_iter_update (map (with_interface i)))
         (encode_loop v n ms \<lparr>args_ptr = S, arg_iter = xs, refs = R, heap = H\<rparr>)"
proof (induction ms arbitrary: n S xs R H)
  case Nil
  show ?case by simp
next
  case (Cons m ms)
  obtain null sig where m: "m = (null, sig)" by (cases m)
  show ?case
  proof (cases "sig = ''n''")
    case True
    with Cons.IH [of "Suc n" "S[n := 0]" xs R H] m show ?thesis by simp
  next
    case False
    show ?thesis
    proof (cases xs)
      case Nil
      with False m show ?thesis by simp
    next
      case (Cons arg rest)
      show ?thesis
      proof (cases "encode_value v null sig arg (S ! n) R H")
        case (Inl e)
        with False m Cons show ?thesis by (simp add: encode_value_with_interface)
      next
        case (Inr r)
        obtain slot rs h where r: "r = (slot, rs, h)" by (cases r)
        from Cons.IH [of "Suc n" "S[n := slot]" rest rs h]
        show ?thesis using False m Cons Inr r by (simp add: encode_value_with_interface)
      qed
    qed
  qed
qed

lemma arguments_to_c_with_interface:
  "arguments_to_c v h self (map (with_interface i) args) = arguments_to_c v h self args"
proof -
  let ?ms = "re_arg_finditer (signature self)"
  let ?st = "\<lambda>xs. \<lparr>args_ptr = replicate (length ?ms) 0, arg_iter = xs, refs = [],
                    heap = h @ [UnionArray (length ?ms)]\<rparr>"
  show ?thesis
    using encode_loop_with_interface [of v 0 ?ms _ i args "[]" "h @ [UnionArray (length ?ms)]"]
    by (cases "encode_loop v 0 ?ms (?st args)")
       (simp_all add: arguments_to_c_def ffi_new_def Let_def)
qed

text \<open>
  C6 (as amended). Encoding checks no interface. Its result is the same under any table of
  types and for objects of any interface, and whenever it succeeds the slot of an object
  argument holds the \<^verbatim>\<open>_ptr\<close> of the object given for it, or \<^verbatim>\<open>NULL\<close> when that value is
  \<^verbatim>\<open>None\<close>. The value for the slot number \<open>k\<close> is the one at the position counted by the
  matches before \<open>k\<close> that take a value.
\<close>

theorem object_slot_pointer:
  assumes "arguments_to_c v h self args = Inr (ap, rs, h')"
    and "k < length (re_arg_finditer (signature self))"
    and "snd (re_arg_finditer (signature self) ! k) = ''o''"
  shows "arguments_to_c v h (self\<lparr>types := tys\<rparr>) args = Inr (ap, rs, h')
     \<and> arguments_to_c v h self (map (with_interface i) args) = Inr (ap, rs, h')
     \<and> consumed (take k (re_arg_finditer (signature self))) < length args
     \<and> (args ! consumed (take k (re_arg_finditer (signature self))) = PyNone \<and> slots ap ! k = 0
        \<or> (\<exists>x. args ! consumed (take k (re_arg_finditer (signature self))) = PyProxy x
                \<and> slots ap ! k = obj_ptr x))"
proof -
  let ?ms = "re_arg_finditer (signature self)"
  let ?st = "\<lparr>args_ptr = replicate (length ?ms) 0, arg_iter = args, refs = [],
              heap = h @ [UnionArray (length ?ms)]\<rparr>"
  from assms(1) obtain st' where run: "encode_loop v 0 ?ms ?st = Inr st'"
    and ap: "ap = \<lparr>addr = Suc (length h), slots = args_ptr st'\<rparr>"
    by (auto simp: arguments_to_c_def ffi_new_def Let_def split: sum.splits)
  have "0 + length ?ms \<le> length (args_ptr ?st)" by simp
  from encode_loop_object [OF run this assms(2) assms(3)] ap
  have "consumed (take k ?ms) < length args
     \<and> (args ! consumed (take k ?ms) = PyNone \<and> slots ap ! k = 0
        \<or> (\<exists>x. args ! consumed (take k ?ms) = PyProxy x \<and> slots ap ! k = obj_ptr x))"
    by simp
  moreover have "arguments_to_c v h (self\<lparr>types := tys\<rparr>) args = Inr (ap, rs, h')"
    using assms(1) by (simp add: arguments_to_c_def)
  moreover have "arguments_to_c v h self (map (with_interface i) args) = Inr (ap, rs, h')"
    using assms(1) by (simp only: arguments_to_c_with_interface)
  ultimately show ?thesis by simp
qed

theorem object_slot_pointer_witness:
  "arguments_to_c True []
     (Message_init \<lparr>dunder_name = ''make_import''\<rparr> ''n?o'' [Some WlRequests, Some WlCore])
     [PyProxy \<lparr>obj_ptr = 4242, obj_interface = WlRequests\<rparr>]
     = Inr (\<lparr>addr = 1, slots = [0, 4242]\<rparr>, [4242], [UnionArray 2])
   \<and> snd (re_arg_finditer ''n?o'' ! 1) = ''o''
   \<and> arguments_to_c True []
     (Message_init \<lparr>dunder_name = ''make_import''\<rparr> ''n?o'' [Some WlRequests, Some WlCore]
        \<lparr>types := [None, None]\<rparr>)
     [PyProxy \<lparr>obj_ptr = 4242, obj_interface = WlRequests\<rparr>]
     = Inr (\<lparr>addr = 1, slots = [0, 4242]\<rparr>, [4242], [UnionArray 2])"
proof -
  let ?m = "Message_init \<lparr>dunder_name = ''make_import''\<rparr> ''n?o'' [Some WlRequests, Some WlCore]"
  let ?args = "[PyProxy \<lparr>obj_ptr = 4242, obj_interface = WlRequests\<rparr>]"
  have e: "arguments_to_c True [] ?m ?args
     = Inr (\<lparr>addr = 1, slots = [0, 4242]\<rparr>, [4242], [UnionArray 2])"
    by (simp add: eval_defs)
  have k: "1 < length (re_arg_finditer (signature ?m))"
    by (simp add: signature_Message_init is_kind_def)
  have o: "snd (re_arg_finditer (signature ?m) ! 1) = ''o''"
    by (simp add: signature_Message_init is_kind_def)
  from object_slot_pointer [OF e k o, of "[None, None]" WlCore] e o
  show ?thesis by (simp add: signature_Message_init)
qed

text \<open>
  Against C6 as stated: an object of the interface \<open>wl_requests\<close>, encoded into a slot
  whose type is \<open>wl_core\<close>, is accepted and its pointer written.
\<close>

theorem object_type_counterexample:
  "arguments_to_c True []
     (Message_init \<lparr>dunder_name = ''make_import''\<rparr> ''o'' [Some WlCore])
     [PyProxy \<lparr>obj_ptr = 4242, obj_interface = WlRequests\<rparr>]
     = Inr (\<lparr>addr = 1, slots = [4242]\<rparr>, [4242], [UnionArray 1])
   \<and> WlRequests \<noteq> WlCore"
  by (simp add: eval_defs WlCore_def WlRequests_def)


section \<open>Fixed-point values\<close>

lemma fixed_from_int_slot:
  assumes "- (2 ^ 23) \<le> n" "n < 2 ^ 23"
  shows "get_i32 (set_32 s (wl_fixed_from_int n)) = n * 256"
proof -
  from assms have r: "- (2 ^ 31) \<le> n * 256" "n * 256 < 2 ^ 31" by simp_all
  then have "wl_fixed_from_int n = n * 256"
    unfolding wl_fixed_from_int_def by (rule wrap_int32_id)
  with r show ?thesis by (simp only: get_i32_set_32)
qed

lemma fixed_from_double_slot:
  assumes "- 8388608 \<le> d" "d \<le> 8388607 + 255 / 256"
  shows "get_i32 (set_32 s (wl_fixed_from_double d)) = round_half_even (d * 256)"
proof -
  from assms have "real_of_int (- 2147483648) \<le> d * 256" "d * 256 \<le> real_of_int 2147483647"
    by simp_all
  from round_half_even_bounds [OF this]
  have r: "- (2 ^ 31) \<le> round_half_even (d * 256)" "round_half_even (d * 256) < 2 ^ 31"
    by simp_all
  then have "wl_fixed_from_double d = round_half_even (d * 256)"
    unfolding wl_fixed_from_double_def by (rule wrap_int32_id)
  with r show ?thesis by (simp only: get_i32_set_32)
qed

lemma roundtrip_f_float:
  assumes "signature self = ''f''" "- 8388608 \<le> d" "d \<le> 8388607 + 255 / 256"
  shows "roundtrip v h self [PyFloat d]
           = Inr [PyFloat (real_of_int (round_half_even (d * 256)) / 256)]"
  using fixed_from_double_slot [OF assms(2,3), of 0]
  by (simp add: roundtrip_def arguments_to_c_def c_to_arguments_def assms(1) is_kind_def
        ffi_new_def encode_value_def decode_value_def wl_fixed_to_double_def)

lemma roundtrip_f_int:
  assumes "signature self = ''f''" "- 8388608 \<le> n" "n < 8388608"
  shows "roundtrip v h self [PyInt n] = Inr [PyFloat (real_of_int n)]"
proof -
  from assms have "- (2 ^ 23) \<le> n" "n < 2 ^ 23" by simp_all
  from fixed_from_int_slot [OF this, of 0] assms show ?thesis
    by (simp add: roundtrip_def arguments_to_c_def c_to_arguments_def is_kind_def
          ffi_new_def encode_value_def decode_value_def wl_fixed_to_double_def to_int32_def)
qed

lemma wrap_int32_range: "- (2 ^ 31) \<le> wrap_int32 x \<and> wrap_int32 x < 2 ^ 31"
  using pos_mod_bound [of 4294967296 "x + 2147483648"]
        pos_mod_sign [of 4294967296 "x + 2147483648"]
  by (simp add: wrap_int32_def)

text \<open>What the loop wrote into the slot of a match that takes a value.\<close>

lemma encode_loop_slot:
  "encode_loop v i ms st = Inr st' \<Longrightarrow> i + length ms \<le> length (args_ptr st) \<Longrightarrow>
   k < length ms \<Longrightarrow> snd (ms ! k) \<noteq> ''n'' \<Longrightarrow>
   consumed (take k ms) < length (arg_iter st)
   \<and> (\<exists>rs h rs' h'.
         encode_value v (fst (ms ! k)) (snd (ms ! k)) (arg_iter st ! consumed (take k ms))
           (args_ptr st ! (i + k)) rs h
         = Inr (args_ptr st' ! (i + k), rs', h'))"
proof (induction ms arbitrary: i st k)
  case Nil
  then show ?case by simp
next
  case (Cons m ms)
  obtain null sig where m: "m = (null, sig)" by (cases m)
  show ?case
  proof (cases "sig = ''n''")
    case True
    let ?st = "st\<lparr>args_ptr := (args_ptr st)[i := 0]\<rparr>"
    from True Cons.prems(1) m have run: "encode_loop v (Suc i) ms ?st = Inr st'" by simp
    from True Cons.prems(4) m obtain k' where k: "k = Suc k'" by (cases k) auto
    from Cons.prems k have "Suc i + length ms \<le> length (args_ptr ?st)" "k' < length ms"
      "snd (ms ! k') \<noteq> ''n''" by simp_all
    from Cons.IH [OF run this] show ?thesis
      using True m k by (simp add: consumed_Cons)
  next
    case False
    with Cons.prems(1) m obtain arg rest slot rs h where
      it: "arg_iter st = arg # rest"
      and ev: "encode_value v null sig arg (args_ptr st ! i) (refs st) (heap st) = Inr (slot, rs, h)"
      and run: "encode_loop v (Suc i) ms
             \<lparr>args_ptr = (args_ptr st)[i := slot], arg_iter = rest, refs = rs, heap = h\<rparr> = Inr st'"
      by (auto split: list.splits sum.splits)
    let ?st = "\<lparr>args_ptr = (args_ptr st)[i := slot], arg_iter = rest, refs = rs, heap = h\<rparr>"
    show ?thesis
    proof (cases k)
      case 0
      from Cons.prems(2) have i: "i < length (args_ptr st)" by simp
      from encode_loop_frame [OF run] i have "args_ptr st' ! i = slot" by simp
      with ev it 0 m show ?thesis
        by (auto simp: consumed_Nil)
    next
      case (Suc k')
      from Cons.prems Suc have "Suc i + length ms \<le> length (args_ptr ?st)" "k' < length ms"
        "snd (ms ! k') \<noteq> ''n''" by simp_all
      from Cons.IH [OF run this] show ?thesis
        using False m Suc it by (simp add: consumed_Cons)
    qed
  qed
qed

lemma encode_value_fixed_any:
  assumes "encode_value v null ''f'' arg slot rs h = Inr (slot', rs', h')"
  shows "encode_value v null2 ''f'' arg slot rs2 h2 = Inr (slot', rs2, h2)"
  using assms by (cases arg) (auto simp: encode_value_def split: sum.splits)

lemma arguments_to_c_fixed:
  assumes "arguments_to_c v h self args = Inr (ap, rs, h')"
    and "k < length (re_arg_finditer (signature self))"
    and "snd (re_arg_finditer (signature self) ! k) = ''f''"
  shows "consumed (take k (re_arg_finditer (signature self))) < length args
     \<and> encode_value v null ''f'' (args ! consumed (take k (re_arg_finditer (signature self)))) 0 rs0 h0
         = Inr (slots ap ! k, rs0, h0)"
proof -
  let ?ms = "re_arg_finditer (signature self)"
  let ?st = "\<lparr>args_ptr = replicate (length ?ms) 0, arg_iter = args, refs = [],
              heap = h @ [UnionArray (length ?ms)]\<rparr>"
  from assms(1) obtain st' where run: "encode_loop v 0 ?ms ?st = Inr st'"
    and ap: "ap = \<lparr>addr = Suc (length h), slots = args_ptr st'\<rparr>"
    by (auto simp: arguments_to_c_def ffi_new_def Let_def split: sum.splits)
  have len: "0 + length ?ms \<le> length (args_ptr ?st)" by simp
  from assms(3) have notn: "snd (?ms ! k) \<noteq> ''n''" by simp
  from encode_loop_slot [OF run len assms(2) notn] assms(2,3) ap
  obtain rs1 h1 rs2 h2 where
    j: "consumed (take k ?ms) < length args"
    and ev: "encode_value v (fst (?ms ! k)) ''f'' (args ! consumed (take k ?ms)) 0 rs1 h1
               = Inr (slots ap ! k, rs2, h2)"
    by auto
  from j encode_value_fixed_any [OF ev] show ?thesis by simp
qed

lemma encode_value_fixed_float:
  "encode_value v null ''f'' (PyFloat d) s rs h = Inr (set_32 s (wl_fixed_from_double d), rs, h)"
  by (simp add: encode_value_def)

lemma encode_value_fixed_int:
  "- (2 ^ 31) \<le> n \<Longrightarrow> n < 2 ^ 31 \<Longrightarrow>
   encode_value v null ''f'' (PyInt n) s rs h = Inr (set_32 s (wl_fixed_from_int n), rs, h)"
  by (simp add: encode_value_def to_int32_def)

lemma decode_value_fixed:
  "decode_value H null ''f'' ea slot acc = Inr (acc @ [PyFloat (real_of_int (get_i32 slot) / 256)])"
  by (simp add: decode_value_def wl_fixed_to_double_def)

lemma round_half_even_scaled:
  "\<bar>real_of_int (round_half_even (d * 256)) / 256 - d\<bar> \<le> 1 / 256"
proof -
  have "\<bar>real_of_int (round_half_even (d * 256)) - d * 256\<bar> \<le> 1 / 2"
    by (rule round_half_even_near)
  then have "- (1 / 2) \<le> real_of_int (round_half_even (d * 256)) - d * 256"
    "real_of_int (round_half_even (d * 256)) - d * 256 \<le> 1 / 2"
    by linarith+
  then show ?thesis by (simp add: abs_le_iff field_simps)
qed

lemma decoded_Nil: "decoded [] = 0"
  by (simp add: decoded_def)

lemma decoded_Cons: "decoded (m # ms) = (if gives_value m then Suc (decoded ms) else decoded ms)"
  by (simp add: decoded_def)

lemma decode_value_length:
  "decode_value h null sig ea slot acc = Inr acc' \<Longrightarrow>
   \<exists>ws. acc' = acc @ ws \<and> length ws = (if gives_value (null, sig) then 1 else 0)"
  by (auto simp: decode_value_def gives_value_def split: if_splits sum.splits)

lemma decode_loop_prefix:
  "decode_loop h ap i ms acc = Inr vals \<Longrightarrow> \<exists>ws. vals = acc @ ws"
proof (induction ms arbitrary: i acc)
  case Nil
  then show ?case by simp
next
  case (Cons m ms)
  obtain null sig where m: "m = (null, sig)" by (cases m)
  from Cons.prems m obtain acc' where
    dv: "decode_value h null sig (addr ap + 8 * i) (slots ap ! i) acc = Inr acc'"
    and run: "decode_loop h ap (Suc i) ms acc' = Inr vals"
    by (auto split: if_splits sum.splits)
  from decode_value_length [OF dv] obtain ws where "acc' = acc @ ws" by blast
  moreover from Cons.IH [OF run] obtain ws' where "vals = acc' @ ws'" ..
  ultimately have "vals = acc @ (ws @ ws')" by simp
  then show ?case ..
qed

lemma decode_loop_fixed:
  "decode_loop h ap i ms acc = Inr vals \<Longrightarrow> k < length ms \<Longrightarrow> snd (ms ! k) = ''f'' \<Longrightarrow>
   length acc + decoded (take k ms) < length vals
   \<and> vals ! (length acc + decoded (take k ms))
       = PyFloat (real_of_int (get_i32 (slots ap ! (i + k))) / 256)"
proof (induction ms arbitrary: i acc k)
  case Nil
  then show ?case by simp
next
  case (Cons m ms)
  obtain null sig where m: "m = (null, sig)" by (cases m)
  from Cons.prems(1) m obtain acc' where
    dv: "decode_value h null sig (addr ap + 8 * i) (slots ap ! i) acc = Inr acc'"
    and run: "decode_loop h ap (Suc i) ms acc' = Inr vals"
    by (auto split: if_splits sum.splits)
  show ?case
  proof (cases k)
    case 0
    with Cons.prems(3) m have f: "sig = ''f''" by simp
    from dv f have acc': "acc' = acc @ [PyFloat (real_of_int (get_i32 (slots ap ! i)) / 256)]"
      by (simp add: decode_value_fixed)
    from decode_loop_prefix [OF run] obtain ws where "vals = acc' @ ws" ..
    with acc' 0 show ?thesis by (simp add: decoded_Nil nth_append)
  next
    case (Suc k')
    from Cons.prems Suc have "k' < length ms" "snd (ms ! k') = ''f''" by simp_all
    from Cons.IH [OF run this]
    have ih: "length acc' + decoded (take k' ms) < length vals
       \<and> vals ! (length acc' + decoded (take k' ms))
           = PyFloat (real_of_int (get_i32 (slots ap ! (Suc i + k'))) / 256)" .
    from decode_value_length [OF dv] obtain ws where
      "acc' = acc @ ws" "length ws = (if gives_value (null, sig) then 1 else 0)" by blast
    then have "length acc' = length acc + (if gives_value m then 1 else 0)" using m by simp
    with ih Suc show ?thesis
      by (cases "gives_value m") (simp_all add: decoded_Cons)
  qed
qed

lemma c_to_arguments_fixed:
  assumes "c_to_arguments h self ap = Inr vals"
    and "k < length (re_arg_finditer (signature self))"
    and "snd (re_arg_finditer (signature self) ! k) = ''f''"
  shows "decoded (take k (re_arg_finditer (signature self))) < length vals
     \<and> vals ! decoded (take k (re_arg_finditer (signature self)))
         = PyFloat (real_of_int (get_i32 (slots ap ! k)) / 256)"
  using decode_loop_fixed [of h ap 0 "re_arg_finditer (signature self)" "[]" vals k] assms
  by (simp add: c_to_arguments_def)

text \<open>
  C8 (as amended). For a fixed slot at any position of any signature: when encoding
  succeeds the slot holds what the fixed branch writes, over an empty slot, for the
  value taken at that position, and when decoding succeeds the value at that position
  is the slot's 32-bit integer over 256. In that branch a float of the 24.8 range (from
  -8388608 up to 8388607 + 255/256) is scaled by 256 and rounded to the nearest integer,
  and is decoded to within 1/256 of itself; an integer from -8388608 up to 8388607 is
  scaled by 256 and is decoded to the float of the same value, whatever the slot held
  before. In particular a message of the one signature \<open>f\<close> encodes and decodes so.
\<close>

theorem fixed_roundtrip:
  "(arguments_to_c v h self args = Inr (ap, rs, h')
      \<and> k < length (re_arg_finditer (signature self))
      \<and> snd (re_arg_finditer (signature self) ! k) = ''f''
      \<longrightarrow> consumed (take k (re_arg_finditer (signature self))) < length args
          \<and> encode_value v null ''f''
                (args ! consumed (take k (re_arg_finditer (signature self)))) 0 rs0 h0
              = Inr (slots ap ! k, rs0, h0))
   \<and> (c_to_arguments H self ap = Inr vals
      \<and> k < length (re_arg_finditer (signature self))
      \<and> snd (re_arg_finditer (signature self) ! k) = ''f''
      \<longrightarrow> decoded (take k (re_arg_finditer (signature self))) < length vals
          \<and> vals ! decoded (take k (re_arg_finditer (signature self)))
              = PyFloat (real_of_int (get_i32 (slots ap ! k)) / 256))
   \<and> (- 8388608 \<le> d \<and> d \<le> 8388607 + 255 / 256
      \<longrightarrow> encode_value v null ''f'' (PyFloat d) s rs0 h0
              = Inr (set_32 s (wl_fixed_from_double d), rs0, h0)
          \<and> decode_value H null ''f'' ea (set_32 s (wl_fixed_from_double d)) acc
              = Inr (acc @ [PyFloat (real_of_int (round_half_even (d * 256)) / 256)])
          \<and> \<bar>real_of_int (round_half_even (d * 256)) / 256 - d\<bar> \<le> 1 / 256)
   \<and> (- 8388608 \<le> n \<and> n < 8388608
      \<longrightarrow> encode_value v null ''f'' (PyInt n) s rs0 h0
              = Inr (set_32 s (wl_fixed_from_int n), rs0, h0)
          \<and> decode_value H null ''f'' ea (set_32 s (wl_fixed_from_int n)) acc
              = Inr (acc @ [PyFloat (real_of_int n)]))
   \<and> (signature self = ''f'' \<and> - 8388608 \<le> d \<and> d \<le> 8388607 + 255 / 256
      \<longrightarrow> roundtrip v h self [PyFloat d]
              = Inr [PyFloat (real_of_int (round_half_even (d * 256)) / 256)])
   \<and> (signature self = ''f'' \<and> - 8388608 \<le> n \<and> n < 8388608
      \<longrightarrow> roundtrip v h self [PyInt n] = Inr [PyFloat (real_of_int n)])"
proof (intro conjI impI)
  let ?ms = "re_arg_finditer (signature self)"
  {
    assume a: "arguments_to_c v h self args = Inr (ap, rs, h') \<and> k < length ?ms
      \<and> snd (?ms ! k) = ''f''"
    then have "consumed (take k ?ms) < length args
      \<and> encode_value v null ''f'' (args ! consumed (take k ?ms)) 0 rs0 h0
          = Inr (slots ap ! k, rs0, h0)"
      using arguments_to_c_fixed [of v h self args ap rs h' k null rs0 h0] by simp
    then show "consumed (take k ?ms) < length args"
      and "encode_value v null ''f'' (args ! consumed (take k ?ms)) 0 rs0 h0
          = Inr (slots ap ! k, rs0, h0)"
      by simp_all
  }
  {
    assume a: "c_to_arguments H self ap = Inr vals \<and> k < length ?ms \<and> snd (?ms ! k) = ''f''"
    then have "decoded (take k ?ms) < length vals
      \<and> vals ! decoded (take k ?ms) = PyFloat (real_of_int (get_i32 (slots ap ! k)) / 256)"
      using c_to_arguments_fixed [of H self ap vals k] by simp
    then show "decoded (take k ?ms) < length vals"
      and "vals ! decoded (take k ?ms) = PyFloat (real_of_int (get_i32 (slots ap ! k)) / 256)"
      by simp_all
  }
  {
    assume r: "- 8388608 \<le> d \<and> d \<le> 8388607 + 255 / 256"
    show "encode_value v null ''f'' (PyFloat d) s rs0 h0
            = Inr (set_32 s (wl_fixed_from_double d), rs0, h0)"
      by (rule encode_value_fixed_float)
    from r have "get_i32 (set_32 s (wl_fixed_from_double d)) = round_half_even (d * 256)"
      using fixed_from_double_slot [of d s] by simp
    then show "decode_value H null ''f'' ea (set_32 s (wl_fixed_from_double d)) acc
            = Inr (acc @ [PyFloat (real_of_int (round_half_even (d * 256)) / 256)])"
      by (simp add: decode_value_fixed)
    show "\<bar>real_of_int (round_half_even (d * 256)) / 256 - d\<bar> \<le> 1 / 256"
      by (rule round_half_even_scaled)
  }
  {
    assume r: "- 8388608 \<le> n \<and> n < 8388608"
    then have n: "- (2 ^ 23) \<le> n" "n < 2 ^ 23" by simp_all
    from r show "encode_value v null ''f'' (PyInt n) s rs0 h0
            = Inr (set_32 s (wl_fixed_from_int n), rs0, h0)"
      by (intro encode_value_fixed_int) simp_all
    from fixed_from_int_slot [OF n, of s]
    show "decode_value H null ''f'' ea (set_32 s (wl_fixed_from_int n)) acc
            = Inr (acc @ [PyFloat (real_of_int n)])"
      by (simp add: decode_value_fixed)
  }
  {
    assume "signature self = ''f'' \<and> - 8388608 \<le> d \<and> d \<le> 8388607 + 255 / 256"
    then show "roundtrip v h self [PyFloat d]
              = Inr [PyFloat (real_of_int (round_half_even (d * 256)) / 256)]"
      using roundtrip_f_float [of self d v h] by simp
  }
  {
    assume "signature self = ''f'' \<and> - 8388608 \<le> n \<and> n < 8388608"
    then show "roundtrip v h self [PyInt n] = Inr [PyFloat (real_of_int n)]"
      using roundtrip_f_int [of self n v h] by simp
  }
qed

theorem fixed_roundtrip_witness:
  "arguments_to_c True [] (Message_init \<lparr>dunder_name = ''f''\<rparr> ''2n?ouf'' [None, None, None, None])
       [PyNone, PyInt 7, PyFloat (1 / 1024)]
     = Inr (\<lparr>addr = 1, slots = [0, 0, 7, 0]\<rparr>, [], [UnionArray 4])
   \<and> snd (re_arg_finditer ''2n?ouf'' ! 3) = ''f''
   \<and> consumed (take 3 (re_arg_finditer ''2n?ouf'')) = 2
   \<and> encode_value True '''' ''f'' (PyFloat (1 / 1024)) 0 [] [] = Inr (0, [], [])
   \<and> c_to_arguments [UnionArray 4]
        (Message_init \<lparr>dunder_name = ''f''\<rparr> ''2n?ouf'' [None, None, None, None])
        \<lparr>addr = 1, slots = [0, 0, 7, 0]\<rparr> = Inr [PyInt 7, PyFloat 0]
   \<and> decoded (take 3 (re_arg_finditer ''2n?ouf'')) = 1
   \<and> decode_value [UnionArray 4] '''' ''f'' 8 (set_32 7 (wl_fixed_from_double (1 / 1024))) []
       = Inr [PyFloat 0]
   \<and> \<bar>0 - 1 / 1024 :: real\<bar> \<le> 1 / 256
   \<and> decode_value [UnionArray 4] '''' ''f'' 8 (set_32 7 (wl_fixed_from_int (- 3))) []
       = Inr [PyFloat (- 3)]
   \<and> roundtrip True [] (Message_init \<lparr>dunder_name = ''f''\<rparr> ''f'' [None]) [PyFloat (1 / 1024)]
       = Inr [PyFloat 0]
   \<and> roundtrip True [] (Message_init \<lparr>dunder_name = ''f''\<rparr> ''f'' [None]) [PyInt (- 3)]
       = Inr [PyFloat (- 3)]"
proof -
  let ?m = "Message_init \<lparr>dunder_name = ''f''\<rparr> ''2n?ouf'' [None, None, None, None]"
  let ?f = "Message_init \<lparr>dunder_name = ''f''\<rparr> ''f'' [None]"
  let ?args = "[PyNone, PyInt 7, PyFloat (1 / 1024)]"
  let ?ap = "\<lparr>addr = 1, slots = [0, 0, 7, 0]\<rparr>"
  have ms: "re_arg_finditer ''2n?ouf'' = [('''', ''n''), (''?'', ''o''), ('''', ''u''), ('''', ''f'')]"
    by (simp add: is_kind_def)
  have r: "round_half_even (1 / 4) = 0"
    by (simp add: round_half_even_def)
  have q: "(1 / 1024 * 256 :: real) = 1 / 4" by simp
  have enc: "arguments_to_c True [] ?m ?args = Inr (?ap, [], [UnionArray 4])"
    by (simp add: eval_defs wl_fixed_from_double_def wrap_int32_def r)
  have dec: "c_to_arguments [UnionArray 4] ?m ?ap = Inr [PyInt 7, PyFloat 0]"
    by (simp add: eval_defs wl_fixed_to_double_def)
  have k: "3 < length (re_arg_finditer (signature ?m))"
    "snd (re_arg_finditer (signature ?m) ! 3) = ''f''"
    unfolding signature_Message_init ms by simp_all
  have c: "consumed (take 3 (re_arg_finditer (signature ?m))) = 2"
    unfolding signature_Message_init ms by (simp add: consumed_def takes_value_def)
  have d: "decoded (take 3 (re_arg_finditer (signature ?m))) = 1"
    unfolding signature_Message_init ms by (simp add: decoded_def gives_value_def)
  have sf: "signature ?f = ''f''" by (rule signature_Message_init)
  have range: "- 8388608 \<le> (1 / 1024 :: real) \<and> (1 / 1024 :: real) \<le> 8388607 + 255 / 256"
    "- 8388608 \<le> (- 3 :: int) \<and> (- 3 :: int) < 8388608"
    by simp_all
  note at_m = fixed_roundtrip [where self = ?m and v = True and h = "[]" and args = ?args
      and ap = ?ap and rs = "[]" and h' = "[UnionArray 4]" and k = 3 and null = "''''"
      and ?rs0.0 = "[]" and ?h0.0 = "[]" and H = "[UnionArray 4]" and vals = "[PyInt 7, PyFloat 0]"
      and d = "1 / 1024" and s = 7 and ea = 8 and acc = "[]" and n = "- 3"]
  note at_f = fixed_roundtrip [where self = ?f and v = True and h = "[]" and args = "[]"
      and ap = ?ap and rs = "[]" and h' = "[]" and k = 0 and null = "''''"
      and ?rs0.0 = "[]" and ?h0.0 = "[]" and H = "[]" and vals = "[]"
      and d = "1 / 1024" and s = 7 and ea = 8 and acc = "[]" and n = "- 3"]
  note slot = at_m [THEN conjunct1, rule_format, OF conjI [OF enc conjI [OF k]]]
  note fl = at_m [THEN conjunct2, THEN conjunct2, THEN conjunct1, rule_format, OF range(1)]
  note it = at_m [THEN conjunct2, THEN conjunct2, THEN conjunct2, THEN conjunct1, rule_format,
      OF range(2)]
  note rf = at_f [THEN conjunct2, THEN conjunct2, THEN conjunct2, THEN conjunct2, THEN conjunct1,
      rule_format, OF conjI [OF sf range(1)]]
  note ri = at_f [THEN conjunct2, THEN conjunct2, THEN conjunct2, THEN conjunct2, THEN conjunct2,
      rule_format, OF conjI [OF sf range(2)]]
  have c': "consumed (take 3 (re_arg_finditer ''2n?ouf'')) = 2"
    using c by (simp only: signature_Message_init)
  have d': "decoded (take 3 (re_arg_finditer ''2n?ouf'')) = 1"
    using d by (simp only: signature_Message_init)
  have k': "snd (re_arg_finditer ''2n?ouf'' ! 3) = ''f''"
    using k(2) by (simp only: signature_Message_init)
  have e1: "encode_value True '''' ''f'' (PyFloat (1 / 1024)) 0 [] [] = Inr (0, [], [])"
    using slot unfolding c by simp
  have e2: "decode_value [UnionArray 4] '''' ''f'' 8 (set_32 7 (wl_fixed_from_double (1 / 1024))) []
       = Inr [PyFloat 0]"
    using fl unfolding q r by simp
  have e3: "decode_value [UnionArray 4] '''' ''f'' 8 (set_32 7 (wl_fixed_from_int (- 3))) []
       = Inr [PyFloat (- 3)]"
    using it by simp
  have e4: "roundtrip True [] ?f [PyFloat (1 / 1024)] = Inr [PyFloat 0]"
    using rf unfolding q r by simp
  have e5: "roundtrip True [] ?f [PyInt (- 3)] = Inr [PyFloat (- 3)]"
    using ri by simp
  have e6: "\<bar>0 - 1 / 1024 :: real\<bar> \<le> 1 / 256" by simp
  from enc k' c' e1 dec d' e2 e6 e3 e4 e5 show ?thesis
    by (intro conjI)
qed

text \<open>
  Against C8 as stated: the float 8388609 is outside the 24.8 range, whose largest value
  is 8388607 + 255/256, and comes back as -8388607, which is not within 1/256 of it.
\<close>

theorem fixed_counterexample:
  "roundtrip True [] (Message_init \<lparr>dunder_name = ''f''\<rparr> ''f'' [None]) [PyFloat 8388609]
     = Inr [PyFloat (- 8388607)]
   \<and> \<not> \<bar>- 8388607 - 8388609 :: real\<bar> \<le> 1 / 256"
  by (simp add: eval_defs wl_fixed_from_double_def wl_fixed_to_double_def wrap_int32_def
        round_half_even_def)


section \<open>Encoding and decoding again\<close>

lemma ffi_string_new:
  assumes "CHR 0x00 \<notin> set t"
  shows "ffi_string (h @ [CharArray (t @ [CHR 0x00])] @ H) (Suc (length h)) = Inr t"
proof -
  have "takeWhile (\<lambda>c. c \<noteq> CHR 0x00) (t @ [CHR 0x00]) = t"
    using assms by (induction t) auto
  then show ?thesis
    by (simp add: ffi_string_def deref_def nth_append)
qed

lemma encode_value_plain:
  assumes "plain_value (null, sig) val"
  shows "\<exists>slot rs' B w.
           encode_value v null sig val s rs h = Inr (slot, rs', h @ B) \<and> py_eq w val
           \<and> (\<forall>H ea acc. ea \<noteq> 0 \<longrightarrow>
                 decode_value (h @ B @ H) null sig ea slot acc = Inr (acc @ [w]))"
proof -
  consider (int) "sig = ''i'' \<or> sig = ''h''" | (uint) "sig = ''u''" | (fixed) "sig = ''f''"
    | (str) "sig = ''s''"
    using assms by (auto simp: plain_value_def Let_def split: if_splits)
  then show ?thesis
  proof cases
    case int
    with assms obtain n where n: "val = PyInt n" "- (2 ^ 31) \<le> n" "n < 2 ^ 31"
      by (cases val) (auto simp: plain_value_def)
    let ?slot = "set_32 s n"
    have e: "encode_value v null sig val s rs h = Inr (?slot, rs, h @ [])"
      using int n by (auto simp: encode_value_def to_int32_def)
    have d: "\<forall>H ea acc. ea \<noteq> 0 \<longrightarrow>
        decode_value (h @ [] @ H) null sig ea ?slot acc = Inr (acc @ [PyInt n])"
      using int get_i32_set_32 [OF n(2,3), of s] by (auto simp: decode_value_def)
    from e d n(1) show ?thesis by (intro exI [of _ ?slot] exI [of _ rs] exI [of _ "[]"] exI [of _ "PyInt n"]) simp
  next
    case uint
    with assms obtain n where n: "val = PyInt n" "0 \<le> n" "n < 2 ^ 32"
      by (cases val) (auto simp: plain_value_def)
    let ?slot = "set_32 s n"
    have e: "encode_value v null sig val s rs h = Inr (?slot, rs, h @ [])"
      using uint n by (auto simp: encode_value_def to_uint32_def)
    have d: "\<forall>H ea acc. ea \<noteq> 0 \<longrightarrow>
        decode_value (h @ [] @ H) null sig ea ?slot acc = Inr (acc @ [PyInt n])"
      using uint get_u32_set_32 [OF n(2,3), of s] by (auto simp: decode_value_def)
    from e d n(1) show ?thesis by (intro exI [of _ ?slot] exI [of _ rs] exI [of _ "[]"] exI [of _ "PyInt n"]) simp
  next
    case fixed
    from fixed assms consider
      (i) n where "val = PyInt n" "- (2 ^ 23) \<le> n" "n < 2 ^ 23"
      | (d) x where "val = PyFloat x" "- (2 ^ 23) \<le> x" "x < 2 ^ 23"
          "x * 256 = real_of_int \<lfloor>x * 256\<rfloor>"
      by (cases val) (auto simp: plain_value_def)
    then show ?thesis
    proof cases
      case i
      let ?slot = "set_32 s (wl_fixed_from_int n)"
      have e: "encode_value v null sig val s rs h = Inr (?slot, rs, h @ [])"
        using fixed i by (auto simp: encode_value_def to_int32_def)
      have d: "\<forall>H ea acc. ea \<noteq> 0 \<longrightarrow>
          decode_value (h @ [] @ H) null sig ea ?slot acc = Inr (acc @ [PyFloat (real_of_int n)])"
        using fixed fixed_from_int_slot [OF i(2,3), of s]
        by (auto simp: decode_value_def wl_fixed_to_double_def)
      from e d i(1) show ?thesis
        by (intro exI [of _ ?slot] exI [of _ rs] exI [of _ "[]"] exI [of _ "PyFloat (real_of_int n)"]) simp
    next
      case d
      let ?slot = "set_32 s (wl_fixed_from_double x)"
      have e: "encode_value v null sig val s rs h = Inr (?slot, rs, h @ [])"
        using fixed d by (auto simp: encode_value_def)
      have "x * 256 < 2147483648" using d(3) by simp
      then have "real_of_int \<lfloor>x * 256\<rfloor> < real_of_int 2147483648" using d(4) by simp
      then have "\<lfloor>x * 256\<rfloor> \<le> 2147483647" by linarith
      then have "real_of_int \<lfloor>x * 256\<rfloor> \<le> 2147483647" by linarith
      then have hi: "x \<le> 8388607 + 255 / 256" using d(4) by simp
      have lo: "- 8388608 \<le> x" using d(2) by simp
      have "round_half_even (x * 256) = \<lfloor>x * 256\<rfloor>"
        using round_half_even_int [of "\<lfloor>x * 256\<rfloor>"] d(4) by simp
      then have same: "real_of_int (round_half_even (x * 256)) / 256 = x"
        using d(4) by simp
      have dd: "\<forall>H ea acc. ea \<noteq> 0 \<longrightarrow>
          decode_value (h @ [] @ H) null sig ea ?slot acc = Inr (acc @ [PyFloat x])"
        using fixed fixed_from_double_slot [OF lo hi, of s] same
        by (auto simp: decode_value_def wl_fixed_to_double_def)
      from e dd d(1) show ?thesis
        by (intro exI [of _ ?slot] exI [of _ rs] exI [of _ "[]"] exI [of _ "PyFloat x"]) simp
    qed
  next
    case str
    with assms obtain t where t: "val = PyStr t" "CHR 0x00 \<notin> set t" "utf8_wf (map of_char t)"
      by (cases val) (auto simp: plain_value_def)
    let ?slot = "Suc (length h)"
    let ?B = "[CharArray (t @ [CHR 0x00])]"
    have e: "encode_value v null sig val s rs h = Inr (?slot, rs @ [?slot], h @ ?B)"
      using str t by (simp add: encode_value_def ffi_new_def)
    have d: "\<forall>H ea acc. ea \<noteq> 0 \<longrightarrow>
        decode_value (h @ ?B @ H) null sig ea ?slot acc = Inr (acc @ [PyStr t])"
      using str ffi_string_new [OF t(2), of h] t(3)
      by (simp add: decode_value_def bytes_decode_def)
    from e d t(1) show ?thesis
      by (intro exI [of _ ?slot] exI [of _ "rs @ [?slot]"] exI [of _ ?B] exI [of _ "PyStr t"]) simp
  qed
qed

lemma encode_loop_plain:
  "list_all2 plain_value ms vals \<Longrightarrow> i + length ms \<le> length S \<Longrightarrow> a \<noteq> 0 \<Longrightarrow>
   \<exists>S' R' B.
     encode_loop v i ms \<lparr>args_ptr = S, arg_iter = vals, refs = R, heap = h\<rparr>
       = Inr \<lparr>args_ptr = S', arg_iter = [], refs = R', heap = h @ B\<rparr>
     \<and> length S' = length S \<and> (\<forall>j < i. S' ! j = S ! j)
     \<and> (\<forall>H acc. \<exists>ws.
           decode_loop (h @ B @ H) \<lparr>addr = a, slots = S'\<rparr> i ms acc = Inr (acc @ ws)
           \<and> list_all2 py_eq ws vals)"
proof (induction ms vals arbitrary: i S R h rule: list_all2_induct)
  case Nil
  show ?case by (intro exI [of _ S] exI [of _ R] exI [of _ "[]"]) simp
next
  case (Cons m ms val vals)
  obtain null sig where m: "m = (null, sig)" by (cases m)
  from Cons.hyps(1) m have pv: "plain_value (null, sig) val" by simp
  then have notn: "sig \<noteq> ''n''" by (auto simp: plain_value_def)
  from Cons.prems have i: "i < length S" by simp
  from encode_value_plain [OF pv, of v "S ! i" R h] obtain slot R1 B1 w where
    ev: "encode_value v null sig val (S ! i) R h = Inr (slot, R1, h @ B1)"
    and eq: "py_eq w val"
    and dv: "\<And>H ea acc. ea \<noteq> 0 \<Longrightarrow>
               decode_value (h @ B1 @ H) null sig ea slot acc = Inr (acc @ [w])"
    by blast
  from Cons.prems have le: "Suc i + length ms \<le> length (S[i := slot])" by simp
  from Cons.IH [OF le Cons.prems(2), of R1 "h @ B1"] obtain S' R' B2 where
    run: "encode_loop v (Suc i) ms \<lparr>args_ptr = S[i := slot], arg_iter = vals, refs = R1, heap = h @ B1\<rparr>
            = Inr \<lparr>args_ptr = S', arg_iter = [], refs = R', heap = (h @ B1) @ B2\<rparr>"
    and len: "length S' = length (S[i := slot])"
    and frame: "\<forall>j < Suc i. S' ! j = S[i := slot] ! j"
    and dl: "\<And>H acc. \<exists>ws.
           decode_loop ((h @ B1) @ B2 @ H) \<lparr>addr = a, slots = S'\<rparr> (Suc i) ms acc = Inr (acc @ ws)
           \<and> list_all2 py_eq ws vals"
    by blast
  from frame i have si: "S' ! i = slot" by simp
  have enc: "encode_loop v i (m # ms) \<lparr>args_ptr = S, arg_iter = val # vals, refs = R, heap = h\<rparr>
       = Inr \<lparr>args_ptr = S', arg_iter = [], refs = R', heap = h @ (B1 @ B2)\<rparr>"
    using m notn ev run by simp
  have fr: "\<forall>j < i. S' ! j = S ! j" using frame by simp
  have dec: "\<forall>H acc. \<exists>ws.
           decode_loop (h @ (B1 @ B2) @ H) \<lparr>addr = a, slots = S'\<rparr> i (m # ms) acc = Inr (acc @ ws)
           \<and> list_all2 py_eq ws (val # vals)"
  proof (intro allI)
    fix H acc
    from Cons.prems(2) have nz: "a + 8 * i \<noteq> 0" by simp
    from dv [OF nz, of "B2 @ H" acc]
    have d1: "decode_value (h @ (B1 @ B2) @ H) null sig (a + 8 * i) slot acc = Inr (acc @ [w])"
      by simp
    from dl [of H "acc @ [w]"] obtain ws where
      d2: "decode_loop (h @ (B1 @ B2) @ H) \<lparr>addr = a, slots = S'\<rparr> (Suc i) ms (acc @ [w])
             = Inr ((acc @ [w]) @ ws)"
      and eqs: "list_all2 py_eq ws vals" by auto
    have "decode_loop (h @ (B1 @ B2) @ H) \<lparr>addr = a, slots = S'\<rparr> i (m # ms) acc
            = Inr (acc @ (w # ws))"
      using m i len si d1 d2 by simp
    with eq eqs show "\<exists>ws. decode_loop (h @ (B1 @ B2) @ H) \<lparr>addr = a, slots = S'\<rparr> i (m # ms) acc
           = Inr (acc @ ws) \<and> list_all2 py_eq ws (val # vals)"
      by (intro exI [of _ "w # ws"]) simp
  qed
  from enc len fr dec show ?case
    by (intro exI [of _ S'] exI [of _ R'] exI [of _ "B1 @ B2"]) simp
qed

text \<open>
  C1 (as amended). For a signature whose slots are integers, unsigned integers, fixeds,
  file descriptors and strings only, and one value per slot as described by
  \<open>plain_value\<close>, encoding succeeds and decoding its array, in the memory that encoding
  left, returns a list equal to the values in the sense of Python's \<^verbatim>\<open>==\<close>.
\<close>

theorem roundtrip_plain:
  assumes "list_all2 plain_value (re_arg_finditer (signature self)) vals"
  shows "\<exists>ws. roundtrip v h self vals = Inr ws \<and> list_all2 py_eq ws vals"
proof -
  let ?ms = "re_arg_finditer (signature self)"
  have le: "0 + length ?ms \<le> length (replicate (length ?ms) (0::nat))" by simp
  have nz: "Suc (length h) \<noteq> 0" by simp
  from encode_loop_plain [OF assms le nz, of v "[]" "h @ [UnionArray (length ?ms)]"]
  obtain S' R' B where
    run: "encode_loop v 0 ?ms \<lparr>args_ptr = replicate (length ?ms) 0, arg_iter = vals, refs = [],
                              heap = h @ [UnionArray (length ?ms)]\<rparr>
            = Inr \<lparr>args_ptr = S', arg_iter = [], refs = R', heap = (h @ [UnionArray (length ?ms)]) @ B\<rparr>"
    and dl: "\<And>H acc. \<exists>ws.
           decode_loop ((h @ [UnionArray (length ?ms)]) @ B @ H)
              \<lparr>addr = Suc (length h), slots = S'\<rparr> 0 ?ms acc = Inr (acc @ ws)
           \<and> list_all2 py_eq ws vals"
    by blast
  from dl [of "[]" "[]"] obtain ws where
    "decode_loop ((h @ [UnionArray (length ?ms)]) @ B) \<lparr>addr = Suc (length h), slots = S'\<rparr> 0 ?ms []
       = Inr ws" and eqs: "list_all2 py_eq ws vals"
    by auto
  with run have "roundtrip v h self vals = Inr ws"
    by (simp add: roundtrip_def arguments_to_c_def c_to_arguments_def ffi_new_def Let_def)
  with eqs show ?thesis by blast
qed

theorem roundtrip_plain_witness:
  "list_all2 plain_value (re_arg_finditer ''2iuf?shf'')
     [PyInt (- 5), PyInt 7, PyFloat (3 / 2), PyStr ''hello'', PyInt 3, PyInt 4]
   \<and> roundtrip True [] (Message_init \<lparr>dunder_name = ''send_event''\<rparr> ''2iuf?shf''
                          [None, None, None, None, None, None])
       [PyInt (- 5), PyInt 7, PyFloat (3 / 2), PyStr ''hello'', PyInt 3, PyInt 4]
     = Inr [PyInt (- 5), PyInt 7, PyFloat (3 / 2), PyStr ''hello'', PyInt 3, PyFloat 4]"
proof -
  let ?m = "Message_init \<lparr>dunder_name = ''send_event''\<rparr> ''2iuf?shf''
              [None, None, None, None, None, None]"
  let ?vals = "[PyInt (- 5), PyInt 7, PyFloat (3 / 2), PyStr ''hello'', PyInt 3, PyInt 4]"
  have ms: "re_arg_finditer ''2iuf?shf''
      = [('''', ''i''), ('''', ''u''), ('''', ''f''), (''?'', ''s''), ('''', ''h''), ('''', ''f'')]"
    by (simp add: is_kind_def)
  have pv: "list_all2 plain_value (re_arg_finditer (signature ?m)) ?vals"
    unfolding signature_Message_init ms by (simp add: plain_value_def)
  have ev: "roundtrip True [] ?m ?vals
     = Inr [PyInt (- 5), PyInt 7, PyFloat (3 / 2), PyStr ''hello'', PyInt 3, PyFloat 4]"
    by (simp add: eval_defs wl_fixed_from_double_def wl_fixed_from_int_def
          wl_fixed_to_double_def wrap_int32_def round_half_even_def nth_append)
  from roundtrip_plain [OF pv, of True "[]"] ev pv
  show ?thesis unfolding signature_Message_init by simp
qed

text \<open>
  Against C1 as stated: the float 1/1024 in a fixed slot comes back as 0.
\<close>

theorem roundtrip_counterexample:
  "roundtrip True [] (Message_init \<lparr>dunder_name = ''f''\<rparr> ''f'' [None]) [PyFloat (1 / 1024)]
     = Inr [PyFloat 0]
   \<and> \<not> py_eq (PyFloat 0) (PyFloat (1 / 1024))"
  by (simp add: eval_defs wl_fixed_from_double_def wl_fixed_to_double_def wrap_int32_def
        round_half_even_def)

end
